theory Spec2Isabelle
  imports Complex_Main
begin

section \<open>work-stats: the report writer and the spreadsheet sink of main.go\<close>

text \<open>
  The program gathers tables of strings (one table per report name), writes each table
  to a CSV file, turns each table into rows of formatted spreadsheet cells kept in a map
  \<open>rowData\<close>, and finally sends that map to Google Sheets, either as a new spreadsheet or
  as new tabs of an existing one. The definitions below follow \<open>src/main.go\<close> function by
  function: \<open>write\<close>, \<open>createSheet\<close>, \<open>appendToSheet\<close> and the part of \<open>main\<close> that reads
  the \<open>-sheets\<close> flag.
\<close>

subsection \<open>Ways in which the program stops\<close>

text \<open>
  A Go \<open>error\<close> value returned by a callee is an \<open>error\<close>; \<open>log.Fatal\<close> and a run-time
  panic end the process and are an \<open>abort\<close>.
\<close>

datatype error = Error string

datatype abort = Fatal string | Panic string

text \<open>
  Indexing a slice: Go panics when the index is not below the length (a \<open>nil\<close> slice has
  length 0).
\<close>

definition index :: "'a list \<Rightarrow> nat \<Rightarrow> abort + 'a" where
  "index xs i = (if i < length xs then Inr (xs ! i) else Inl (Panic ''index out of range''))"

subsection \<open>The cells of the Sheets API that the program fills in\<close>

text \<open>
  The structs of \<open>google.golang.org/api/sheets/v4\<close>, restricted to the fields that
  main.go sets or reads. A pointer field left \<open>nil\<close> is an option; the colour components
  are the decimal constants of the source.
\<close>

record Color =
  Blue :: real
  Green :: real
  Red :: real

record TextFormat =
  Bold :: bool

record CellFormat =
  TextFormat :: TextFormat
  BackgroundColor :: "Color option"

record ExtendedValue =
  StringValue :: string

record CellData =
  UserEnteredValue :: ExtendedValue
  UserEnteredFormat :: CellFormat

record RowData =
  Values :: "CellData list"

subsection \<open>The styled rows built by \<open>write\<close> (main.go, lines 200 to 240)\<close>

text \<open>
  The body of the innermost loop: the cell \<open>cell\<close> of row \<open>row\<close>, which is row number \<open>i\<close> of
  its table. \<open>row[0]\<close> is read under the guard \<open>len(row) >= 1\<close>, as in the source.
\<close>

definition cell_data :: "nat \<Rightarrow> string list \<Rightarrow> string \<Rightarrow> abort + CellData" where
  "cell_data i row cell =
     (case (if length row \<ge> 1 then index row 0 else Inr []) of
        Inl a \<Rightarrow> Inl a
      | Inr first \<Rightarrow>
          (let total = (length row \<ge> 1 \<and> first = ''Total'');
               subtotal = (length row \<ge> 1 \<and> first = ''Subtotal'');
               cd = \<lparr>UserEnteredValue = \<lparr>StringValue = cell\<rparr>,
                     UserEnteredFormat =
                       \<lparr>TextFormat = \<lparr>Bold = (i = 0 \<or> total \<or> subtotal)\<rparr>,
                        BackgroundColor = None\<rparr>\<rparr>
           in Inr (if subtotal
                   then cd\<lparr>UserEnteredFormat := (UserEnteredFormat cd)
                          \<lparr>BackgroundColor := Some \<lparr>Blue = 0.96, Green = 0.96, Red = 0.96\<rparr>\<rparr>\<rparr>
                   else if total
                   then cd\<lparr>UserEnteredFormat := (UserEnteredFormat cd)
                          \<lparr>BackgroundColor := Some \<lparr>Blue = 0.92, Green = 0.92, Red = 0.92\<rparr>\<rparr>\<rparr>
                   else cd)))"

text \<open>The loop over the cells of one row, appending to \<open>values\<close>.\<close>

fun row_values :: "nat \<Rightarrow> string list \<Rightarrow> string list \<Rightarrow> CellData list \<Rightarrow> abort + CellData list" where
  "row_values i row [] values = Inr values"
| "row_values i row (cell # cells) values =
     (case cell_data i row cell of
        Inl a \<Rightarrow> Inl a
      | Inr cd \<Rightarrow> row_values i row cells (values @ [cd]))"

text \<open>
  The loop over the rows of one table, appending to \<open>rd\<close>; \<open>i\<close> is the index of the next
  row.
\<close>

fun sheet_rows :: "nat \<Rightarrow> string list list \<Rightarrow> RowData list \<Rightarrow> abort + RowData list" where
  "sheet_rows i [] rd = Inr rd"
| "sheet_rows i (row # rows) rd =
     (case row_values i row row [] of
        Inl a \<Rightarrow> Inl a
      | Inr values \<Rightarrow> sheet_rows (Suc i) rows (rd @ [\<lparr>Values = values\<rparr>]))"

text \<open>The styled rows of a whole table: \<open>rd\<close> starts empty and the first row has index 0.\<close>

definition styled_rows :: "string list list \<Rightarrow> abort + RowData list" where
  "styled_rows cells = sheet_rows 0 cells []"

subsection \<open>Ranging over a Go map\<close>

text \<open>
  \<open>for k, v := range m\<close> visits every entry of the map once, in an order that Go leaves
  unspecified and that may differ from one loop to the next. Each loop over a map
  therefore takes the order of the keys as an argument \<open>ks\<close>; \<open>visits m ks\<close> says that
  \<open>ks\<close> is such an order.
\<close>

fun range_over :: "('k \<rightharpoonup> 'v) \<Rightarrow> 'k list \<Rightarrow> ('k \<times> 'v) list" where
  "range_over m [] = []"
| "range_over m (k # ks) =
     (case m k of None \<Rightarrow> range_over m ks | Some v \<Rightarrow> (k, v) # range_over m ks)"

definition visits :: "('k \<rightharpoonup> 'v) \<Rightarrow> 'k list \<Rightarrow> bool" where
  "visits m ks = (distinct ks \<and> set ks = dom m)"

text \<open>Reading a map of slices at a key: a missing key gives the \<open>nil\<close> slice.\<close>

definition lookup :: "('k \<rightharpoonup> 'v list) \<Rightarrow> 'k \<Rightarrow> 'v list" where
  "lookup m k = (case m k of None \<Rightarrow> [] | Some v \<Rightarrow> v)"

subsection \<open>The CSV writer used by \<open>write\<close>\<close>

text \<open>
  \<open>csv.NewWriter(file)\<close> of Go's \<open>encoding/csv\<close>, with the settings it starts with: the
  delimiter is a comma and \<open>UseCRLF\<close> is false. A string is its sequence of bytes.
\<close>

definition newline :: char where
  "newline = CHR 0x0A"

definition carriage_return :: char where
  "carriage_return = CHR 0x0D"

definition quote :: char where
  "quote = CHR 0x22"

definition Comma :: char where
  "Comma = CHR '',''"

text \<open>
  The UTF-8 encodings of the runes for which \<open>unicode.IsSpace\<close> holds: tab, line feed,
  vertical tab, form feed, carriage return, space, U+0085, U+00A0, U+1680, U+2000 to
  U+200A, U+2028, U+2029, U+202F, U+205F and U+3000.
\<close>

definition space_runes :: "string list" where
  "space_runes =
     [[CHR 0x09], [CHR 0x0A], [CHR 0x0B], [CHR 0x0C], [CHR 0x0D], [CHR 0x20],
      [CHR 0xC2, CHR 0x85], [CHR 0xC2, CHR 0xA0], [CHR 0xE1, CHR 0x9A, CHR 0x80]]
     @ map (\<lambda>b. [CHR 0xE2, CHR 0x80, b])
         [CHR 0x80, CHR 0x81, CHR 0x82, CHR 0x83, CHR 0x84, CHR 0x85, CHR 0x86, CHR 0x87,
          CHR 0x88, CHR 0x89, CHR 0x8A, CHR 0xA8, CHR 0xA9, CHR 0xAF]
     @ [[CHR 0xE2, CHR 0x81, CHR 0x9F], [CHR 0xE3, CHR 0x80, CHR 0x80]]"

text \<open>\<open>unicode.IsSpace\<close> of the first rune of the field.\<close>

definition first_rune_is_space :: "string \<Rightarrow> bool" where
  "first_rune_is_space field = list_ex (\<lambda>r. take (length r) field = r) space_runes"

text \<open>\<open>Writer.fieldNeedsQuotes\<close>.\<close>

definition fieldNeedsQuotes :: "string \<Rightarrow> bool" where
  "fieldNeedsQuotes field =
     (if field = [] then False
      else if field = [CHR 0x5C, CHR ''.''] \<or> Comma \<in> set field
              \<or> quote \<in> set field \<or> carriage_return \<in> set field \<or> newline \<in> set field
      then True
      else first_rune_is_space field)"

text \<open>
  The body of a quoted field: a quote is written twice; with \<open>UseCRLF\<close> false a carriage
  return and a line feed are written as they are.
\<close>

fun quoted_body :: "string \<Rightarrow> string" where
  "quoted_body [] = []"
| "quoted_body (c # cs) = (if c = quote then [quote, quote] else [c]) @ quoted_body cs"

definition csv_field :: "string \<Rightarrow> string" where
  "csv_field field =
     (if fieldNeedsQuotes field then [quote] @ quoted_body field @ [quote] else field)"

text \<open>The fields of a record after the first, each behind a comma.\<close>

fun csv_fields :: "nat \<Rightarrow> string list \<Rightarrow> string" where
  "csv_fields n [] = []"
| "csv_fields n (field # rest) =
     (if n > 0 then [Comma] else []) @ csv_field field @ csv_fields (Suc n) rest"

text \<open>The bytes that \<open>Writer.Write(record)\<close> produces: the fields and a line feed.\<close>

definition csv_record :: "string list \<Rightarrow> string" where
  "csv_record record = csv_fields 0 record @ [newline]"

subsection \<open>The files written by \<open>write\<close> (main.go, lines 175 to 198)\<close>

text \<open>
  The file system maps a path to the bytes of the file there. What the operating system
  decides is an argument: \<open>Join\<close> is \<open>filepath.Join\<close>, \<open>Create_err\<close> tells whether
  \<open>os.Create\<close> of a path fails in the present file system, and \<open>Write_err\<close> whether
  \<open>writer.Write\<close> fails on a path after the bytes already handed to the writer. The
  writer keeps these bytes in a buffer; the deferred \<open>writer.Flush()\<close> sends them to the
  file when \<open>write\<close> returns, and the source drops its error. \<open>Flush\<close> gives the bytes that
  reach the file at a path, of those handed to its writer: all of them when nothing
  fails. The file system after the call is the one seen once the deferred calls have
  run.
\<close>

type_synonym fs = "string \<rightharpoonup> string"

record os =
  Join :: "string \<Rightarrow> string \<Rightarrow> string"
  Create_err :: "fs \<Rightarrow> string \<Rightarrow> error option"
  Write_err :: "string \<Rightarrow> string \<Rightarrow> string list \<Rightarrow> error option"
  Flush :: "string \<Rightarrow> string \<Rightarrow> string"

text \<open>The loop over the rows of one table; \<open>written\<close> holds the bytes written so far.\<close>

fun write_rows :: "os \<Rightarrow> string \<Rightarrow> string list list \<Rightarrow> string \<Rightarrow> error option \<times> string" where
  "write_rows sys fullpath [] written = (None, written)"
| "write_rows sys fullpath (row # rows) written =
     (case Write_err sys fullpath written row of
        Some e \<Rightarrow> (Some e, written)
      | None \<Rightarrow> write_rows sys fullpath rows (written @ csv_record row))"

text \<open>The first loop of \<open>write\<close>, over the entries of \<open>data\<close>.\<close>

fun write_files ::
  "os \<Rightarrow> string \<Rightarrow> (string \<times> string list list) list \<Rightarrow> fs \<Rightarrow> string list
     \<Rightarrow> error option \<times> fs \<times> string list" where
  "write_files sys outputDir [] files filenames = (None, files, filenames)"
| "write_files sys outputDir ((filename, cells) # rest) files filenames =
     (let fullpath = Join sys outputDir (filename @ ''.csv'') in
      case Create_err sys files fullpath of
        Some e \<Rightarrow> (Some e, files, filenames)
      | None \<Rightarrow>
          (case write_rows sys fullpath cells [] of
             (Some e, written) \<Rightarrow>
               (Some e, files(fullpath \<mapsto> Flush sys fullpath written), filenames)
           | (None, written) \<Rightarrow>
               write_files sys outputDir rest (files(fullpath \<mapsto> Flush sys fullpath written))
                 (filenames @ [fullpath])))"

subsection \<open>The accumulator filled by \<open>write\<close> (main.go, lines 199 to 242)\<close>

text \<open>The second loop of \<open>write\<close>: \<open>rowData[title] = rd\<close> for every entry of \<open>data\<close>.\<close>

fun add_sheets ::
  "(string \<times> string list list) list \<Rightarrow> (string \<rightharpoonup> RowData list)
     \<Rightarrow> abort + (string \<rightharpoonup> RowData list)" where
  "add_sheets [] rowData = Inr rowData"
| "add_sheets ((title, cells) # rest) rowData =
     (case styled_rows cells of
        Inl a \<Rightarrow> Inl a
      | Inr rd \<Rightarrow> add_sheets rest (rowData(title \<mapsto> rd)))"

text \<open>
  What a call of \<open>write\<close> leaves behind: the error it returns (\<open>None\<close> for \<open>nil\<close>), the
  file system, the lines printed, and the map \<open>rowData\<close>, which the caller shares.
\<close>

record write_result =
  err :: "error option"
  files :: fs
  printed :: "string list"
  accumulator :: "string \<rightharpoonup> RowData list"

text \<open>
  The function \<open>write\<close> of main.go (named \<open>write_data\<close> here, \<open>write\<close> being a word of
  the proof language); \<open>ks1\<close> and \<open>ks2\<close> are the orders in which its two loops range over
  \<open>data\<close>. A panic would end the process, hence the result on the left of the sum.
\<close>

definition write_data ::
  "os \<Rightarrow> string list \<Rightarrow> string list \<Rightarrow> fs \<Rightarrow> string \<Rightarrow> (string \<rightharpoonup> string list list)
     \<Rightarrow> (string \<rightharpoonup> RowData list) \<Rightarrow> abort + write_result" where
  "write_data sys ks1 ks2 fs0 outputDir data rowData =
     (case write_files sys outputDir (range_over data ks1) fs0 [] of
        (Some e, fs1, filenames) \<Rightarrow>
          Inr \<lparr>err = Some e, files = fs1, printed = [], accumulator = rowData\<rparr>
      | (None, fs1, filenames) \<Rightarrow>
          (case add_sheets (range_over data ks2) rowData of
             Inl a \<Rightarrow> Inl a
           | Inr rowData' \<Rightarrow>
               Inr \<lparr>err = None, files = fs1,
                    printed = map (\<lambda>filename. ''Wrote output to '' @ filename @ ''.'' @ [newline])
                                filenames,
                    accumulator = rowData'\<rparr>))"

subsection \<open>Spreadsheets, requests and the remote service\<close>

text \<open>
  More structs of the Sheets API. The fields \<open>Title'\<close> and \<open>Properties'\<close> are the fields
  \<open>Title\<close> and \<open>Properties\<close> of a spreadsheet, primed to keep them apart from those of a
  sheet. A \<open>Request\<close> has one of its fields set: \<open>AddSheet\<close> with the properties of the new
  sheet, or \<open>AppendCells\<close> with \<open>SheetId\<close>, \<open>Rows\<close> and \<open>Fields\<close>, in this order.
\<close>

record GridProperties =
  FrozenRowCount :: int

record SheetProperties =
  Title :: string
  SheetId :: int
  GridProperties :: "GridProperties option"

record GridData =
  RowData :: "RowData list"

record Sheet =
  Properties :: SheetProperties
  Data :: "GridData list"

record SpreadsheetProperties =
  Title' :: string

record Spreadsheet =
  SpreadsheetId :: string
  SpreadsheetUrl :: string
  Properties' :: SpreadsheetProperties
  Sheets :: "Sheet list"

datatype Request =
    AddSheet SheetProperties
  | AppendCells int "RowData list" string

record BatchUpdateSpreadsheetRequest =
  IncludeSpreadsheetInResponse :: bool
  Requests :: "Request list"

text \<open>
  The two calls that \<open>createSheet\<close> and \<open>appendToSheet\<close> make. The service is a machine
  with a state of its own: a call gives the new state and either an error or the
  spreadsheet sent back (for \<open>BatchUpdate\<close>, the \<open>UpdatedSpreadsheet\<close> of the response,
  which the service includes because the request asks for it).
\<close>

datatype call =
    Create Spreadsheet
  | BatchUpdate string BatchUpdateSpreadsheetRequest

type_synonym 's service = "'s \<Rightarrow> call \<Rightarrow> (error + Spreadsheet) \<times> 's"

text \<open>
  What a call of \<open>createSheet\<close> or \<open>appendToSheet\<close> leaves behind: what it returns, the
  calls it made to the service in the order it made them, and the state of the service.
\<close>

record 's sink_run =
  returned :: "error + Spreadsheet"
  calls :: "call list"
  service_state :: 's

subsection \<open>\<open>createSheet\<close> (main.go, lines 305 to 325)\<close>






subsection \<open>\<open>appendToSheet\<close> (main.go, lines 327 to 368)\<close>

text \<open>The request that adds the sheet for one title.\<close>

definition add_sheet_request :: "string \<Rightarrow> Request" where
  "add_sheet_request title =
     AddSheet \<lparr>Title = title, SheetId = 0, GridProperties = Some \<lparr>FrozenRowCount = 1\<rparr>\<rparr>"

text \<open>The request that appends to one sheet of the spreadsheet sent back.\<close>

definition append_cells_request :: "(string \<rightharpoonup> RowData list) \<Rightarrow> Sheet \<Rightarrow> Request" where
  "append_cells_request rowData sheet =
     AppendCells (SheetId (Properties sheet)) (lookup rowData (Title (Properties sheet))) ''*''"

text \<open>\<open>appendToSheet\<close>; \<open>ks\<close> is the order in which its first loop ranges over \<open>rowData\<close>.\<close>

definition appendToSheet ::
  "'s service \<Rightarrow> 's \<Rightarrow> string list \<Rightarrow> string \<Rightarrow> (string \<rightharpoonup> RowData list) \<Rightarrow> 's sink_run" where
  "appendToSheet srv s ks spreadsheetID rowData =
     (let createRequests = map (\<lambda>(title, data). add_sheet_request title) (range_over rowData ks);
          create_call = BatchUpdate spreadsheetID
            \<lparr>IncludeSpreadsheetInResponse = True, Requests = createRequests\<rparr>
      in case srv s create_call of
           (Inl e, s1) \<Rightarrow> \<lparr>returned = Inl e, calls = [create_call], service_state = s1\<rparr>
         | (Inr response, s1) \<Rightarrow>
             (let dataRequests = map (append_cells_request rowData) (Sheets response);
                  data_call = BatchUpdate spreadsheetID
                    \<lparr>IncludeSpreadsheetInResponse = True, Requests = dataRequests\<rparr>
              in case srv s1 data_call of
                   (r, s2) \<Rightarrow>
                     \<lparr>returned = r, calls = [create_call, data_call], service_state = s2\<rparr>))"

subsection \<open>The \<open>-sheets\<close> flag (main.go, lines 67 to 88 and 135 to 153)\<close>

text \<open>\<open>strings.TrimPrefix\<close> and \<open>strings.TrimSuffix\<close>.\<close>

definition TrimPrefix :: "string \<Rightarrow> string \<Rightarrow> string" where
  "TrimPrefix s p = (if take (length p) s = p then drop (length p) s else s)"

definition TrimSuffix :: "string \<Rightarrow> string \<Rightarrow> string" where
  "TrimSuffix s x =
     (if length x \<le> length s \<and> drop (length s - length x) s = x
      then take (length s - length x) s else s)"

text \<open>
  The regular expression \<open>/spreadsheets/d/(?P<ID>([a-zA-Z0-9-_]+))\<close>. Its class holds
  the letters, the digits, the hyphen and the underscore. A match at the start of \<open>s\<close> is
  the literal followed by the longest run of characters of the class, which must not be
  empty; the submatches are the whole match and the two groups, which are the same run.
\<close>

definition is_id_char :: "char \<Rightarrow> bool" where
  "is_id_char c =
     (let n = (of_char c :: nat)
      in (97 \<le> n \<and> n \<le> 122) \<or> (65 \<le> n \<and> n \<le> 90) \<or> (48 \<le> n \<and> n \<le> 57)
         \<or> c = CHR ''-'' \<or> c = CHR ''_'')"

definition match_here :: "string \<Rightarrow> string list" where
  "match_here s =
     (let literal = ''/spreadsheets/d/'';
          run = takeWhile is_id_char (drop (length literal) s)
      in if take (length literal) s = literal \<and> run \<noteq> [] then [literal @ run, run, run] else [])"

text \<open>
  \<open>re.FindStringSubmatch\<close>: the submatches of the leftmost match, or the \<open>nil\<close> slice when
  there is none.
\<close>

fun FindStringSubmatch :: "string \<Rightarrow> string list" where
  "FindStringSubmatch [] = match_here []"
| "FindStringSubmatch (c # cs) =
     (if match_here (c # cs) \<noteq> [] then match_here (c # cs) else FindStringSubmatch cs)"

text \<open>\<open>re.SubexpNames()\<close>: the whole match and the inner group have no name.\<close>

definition SubexpNames :: "string list" where
  "SubexpNames = ['''', ''ID'', '''']"

text \<open>
  The loop over the names, from index \<open>i\<close> on: \<open>spreadsheetID = match[i]\<close> where the name
  is \<open>ID\<close>.
\<close>

fun id_of_match :: "nat \<Rightarrow> string list \<Rightarrow> string list \<Rightarrow> string \<Rightarrow> abort + string" where
  "id_of_match i [] match spreadsheetID = Inr spreadsheetID"
| "id_of_match i (name # names) match spreadsheetID =
     (if name = ''ID''
      then (case index match i of
              Inl a \<Rightarrow> Inl a
            | Inr v \<Rightarrow> id_of_match (Suc i) names match v)
      else id_of_match (Suc i) names match spreadsheetID)"

text \<open>
  Lines 67 to 88: the value of \<open>spreadsheetID\<close> after them, or the way in which the
  program stops there. The pattern is a constant that compiles, so the \<open>log.Fatal\<close> after
  \<open>regexp.Compile\<close> is never reached.
\<close>

definition spreadsheet_id :: "string \<Rightarrow> abort + string" where
  "spreadsheet_id googleSheetsFlag =
     (if googleSheetsFlag \<noteq> ''new'' \<and> googleSheetsFlag \<noteq> ''''
      then (let trimmed = TrimPrefix googleSheetsFlag ''https://docs.google.com'';
                trimmed = TrimSuffix trimmed ''edit#gid=0'';
                match = FindStringSubmatch trimmed
            in case id_of_match 0 SubexpNames match '''' of
                 Inl a \<Rightarrow> Inl a
               | Inr spreadsheetID \<Rightarrow>
                   if spreadsheetID = ''''
                   then Inl (Fatal (''Unable to determine spreadsheet ID for '' @ googleSheetsFlag))
                   else Inr spreadsheetID)
      else Inr '''')"

text \<open>
  Lines 135 to 153: what \<open>main\<close> does with the spreadsheet once the reports are written.
  \<open>Absent\<close>: it returns without a call to the service; \<open>New\<close>: \<open>createSheet\<close>;
  \<open>Existing id\<close>: \<open>appendToSheet\<close> with the identifier \<open>id\<close>.
\<close>

datatype SpreadsheetReference = Absent | New | Existing string

definition spreadsheet_reference :: "string \<Rightarrow> abort + SpreadsheetReference" where
  "spreadsheet_reference googleSheetsFlag =
     (case spreadsheet_id googleSheetsFlag of
        Inl a \<Rightarrow> Inl a
      | Inr spreadsheetID \<Rightarrow>
          Inr (if googleSheetsFlag = '''' then Absent
               else if googleSheetsFlag = ''new'' then New
               else Existing spreadsheetID))"

subsection \<open>Reading a CSV file back\<close>

text \<open>
  The program never reads the files it writes. To state what reading them back gives,
  this is the reader that belongs to the writer above: \<open>csv.NewReader(file).ReadAll()\<close> of
  Go's \<open>encoding/csv\<close>, with the settings it starts with (comma as delimiter, no comment
  character, \<open>LazyQuotes\<close> and \<open>TrimLeadingSpace\<close> false, \<open>FieldsPerRecord\<close> 0, so that the
  first record fixes the number of fields of all the others).
\<close>

datatype csv_error = ErrBareQuote | ErrQuote | ErrFieldCount

text \<open>
  \<open>Reader.readLine\<close> turns a carriage return and line feed that end a line into a line
  feed, and drops a carriage return that ends the input. Here this is done for all
  lines at once.
\<close>

fun normalize_crlf :: "string \<Rightarrow> string" where
  "normalize_crlf [] = []"
| "normalize_crlf [c] = (if c = carriage_return then [] else [c])"
| "normalize_crlf (c # d # cs) =
     (if c = carriage_return \<and> d = newline then newline # normalize_crlf cs
      else c # normalize_crlf (d # cs))"

text \<open>
  The end of a record that was read without error: with \<open>FieldsPerRecord\<close> still 0 the
  record sets it, otherwise the record must have that many fields.
\<close>

definition accept :: "nat \<Rightarrow> string list \<Rightarrow> csv_error + nat" where
  "accept n row =
     (if n = 0 then Inr (length row)
      else if length row = n then Inr n
      else Inl ErrFieldCount)"

text \<open>
  \<open>Reader.readRecord\<close>, repeated until the end of the input, as a machine that reads one
  byte at a time. \<open>RecordStart\<close>: at the start of a line, where empty lines are skipped;
  \<open>FieldStart\<close>: behind a comma; \<open>Unquoted\<close>: inside a field that did not start with a
  quote, where a quote is an error; \<open>Quoted\<close>: inside a field that started with a quote;
  \<open>AfterQuote\<close>: behind a quote met inside such a field, which a second quote makes a
  quote of the field and a comma, a line feed or the end of the input make the end of
  the field. The arguments are \<open>FieldsPerRecord\<close>, the field and the record being read,
  and the records read so far.
\<close>

datatype mode = RecordStart | FieldStart | Unquoted | Quoted | AfterQuote

fun scan ::
  "mode \<Rightarrow> nat \<Rightarrow> string \<Rightarrow> string list \<Rightarrow> string list list \<Rightarrow> string
     \<Rightarrow> csv_error + string list list" where
  "scan RecordStart n field row records [] = Inr records"
| "scan Quoted n field row records [] = Inl ErrQuote"
| "scan m n field row records [] =
     (case accept n (row @ [field]) of
        Inl e \<Rightarrow> Inl e
      | Inr n' \<Rightarrow> Inr (records @ [row @ [field]]))"
| "scan Quoted n field row records (c # cs) =
     (if c = quote then scan AfterQuote n field row records cs
      else scan Quoted n (field @ [c]) row records cs)"
| "scan AfterQuote n field row records (c # cs) =
     (if c = quote then scan Quoted n (field @ [quote]) row records cs
      else if c = Comma then scan FieldStart n [] (row @ [field]) records cs
      else if c = newline
      then (case accept n (row @ [field]) of
              Inl e \<Rightarrow> Inl e
            | Inr n' \<Rightarrow> scan RecordStart n' [] [] (records @ [row @ [field]]) cs)
      else Inl ErrQuote)"
| "scan m n field row records (c # cs) =
     (if m = RecordStart \<and> c = newline then scan RecordStart n [] [] records cs
      else if m \<noteq> Unquoted \<and> c = quote then scan Quoted n [] row records cs
      else if c = quote then Inl ErrBareQuote
      else if c = Comma then scan FieldStart n [] (row @ [field]) records cs
      else if c = newline
      then (case accept n (row @ [field]) of
              Inl e \<Rightarrow> Inl e
            | Inr n' \<Rightarrow> scan RecordStart n' [] [] (records @ [row @ [field]]) cs)
      else scan Unquoted n (field @ [c]) row records cs)"

definition ReadAll :: "string \<Rightarrow> csv_error + string list list" where
  "ReadAll input = scan RecordStart 0 [] [] [] (normalize_crlf input)"

subsection \<open>Environments for running the functions on examples\<close>

text \<open>
  An operating system in which nothing fails and \<open>Join\<close> puts a slash between directory
  and file name, and one in which no file can be created.
\<close>

definition plain_os :: os where
  "plain_os =
     \<lparr>Join = (\<lambda>dir name. dir @ ''/'' @ name),
      Create_err = (\<lambda>files path. None),
      Write_err = (\<lambda>path written row. None),
      Flush = (\<lambda>path written. written)\<rparr>"


text \<open>
  A stand-in for the remote service, whose state is the spreadsheet it keeps. An
  \<open>AddSheet\<close> request adds a sheet under an identifier of the service's choice, an
  \<open>AppendCells\<close> request adds rows to the sheet with the identifier it names, and every
  call is answered with the spreadsheet as it then is.
\<close>

fun apply_request :: "Sheet list \<Rightarrow> Request \<Rightarrow> Sheet list" where
  "apply_request sheets (AddSheet properties) =
     sheets @ [\<lparr>Properties = properties\<lparr>SheetId := 1000 + int (length sheets)\<rparr>, Data = []\<rparr>]"
| "apply_request sheets (AppendCells sheetId rows fieldMask) =
     map (\<lambda>sheet. if SheetId (Properties sheet) = sheetId
                   then sheet\<lparr>Data := Data sheet @ [\<lparr>RowData = rows\<rparr>]\<rparr> else sheet) sheets"

fun sheets_service :: "Spreadsheet service" where
  "sheets_service doc (Create spreadsheet) = (Inr spreadsheet, spreadsheet)"
| "sheets_service doc (BatchUpdate spreadsheetID request) =
     (let doc' = doc\<lparr>Sheets := foldl apply_request (Sheets doc) (Requests request)\<rparr>
      in (Inr doc', doc'))"

text \<open>A spreadsheet with the one tab that a spreadsheet has when it is created by hand.\<close>

definition one_tab_doc :: Spreadsheet where
  "one_tab_doc =
     \<lparr>SpreadsheetId = ''ABC123xyz_-'',
      SpreadsheetUrl = ''https://docs.google.com/spreadsheets/d/ABC123xyz_-/edit#gid=0'',
      Properties' = \<lparr>Title' = ''Notes''\<rparr>,
      Sheets = [\<lparr>Properties = \<lparr>Title = ''Sheet1'', SheetId = 0, GridProperties = None\<rparr>,
                 Data = []\<rparr>]\<rparr>"

text \<open>The styled rows of a report with a header, one row of data and a total.\<close>

definition three_rows :: "RowData list" where
  "three_rows =
     (case styled_rows [[''Issue'', ''Count''], [''#1'', ''1''], [''Total'', ''1'']] of
        Inl a \<Rightarrow> []
      | Inr rd \<Rightarrow> rd)"

subsection \<open>Notions used in the statements and proofs below\<close>

text \<open>The cell that \<open>cell_data\<close> returns; it is shown below never to panic.\<close>

definition styled :: "nat \<Rightarrow> string list \<Rightarrow> string \<Rightarrow> CellData" where
  "styled i row cell = projr (cell_data i row cell)"

text \<open>The bytes of the file that holds a table: its records one after the other.\<close>

definition csv_file :: "string list list \<Rightarrow> string" where
  "csv_file cells = concat (map csv_record cells)"

text \<open>No carriage return in the string is followed at once by a line feed.\<close>

fun no_crlf :: "string \<Rightarrow> bool" where
  "no_crlf [] = True"
| "no_crlf [c] = True"
| "no_crlf (c # d # cs) = (\<not> (c = carriage_return \<and> d = newline) \<and> no_crlf (d # cs))"

text \<open>
  What the reader does at the line feed that ends a record \<open>row\<close>: the check of the
  number of fields, then the next line.
\<close>

definition end_record ::
  "nat \<Rightarrow> string list \<Rightarrow> string list list \<Rightarrow> string \<Rightarrow> csv_error + string list list" where
  "end_record n row recs rest =
     (case accept n row of
        Inl e \<Rightarrow> Inl e
      | Inr n' \<Rightarrow> scan RecordStart n' [] [] (recs @ [row]) rest)"

section \<open>Properties\<close>

subsection \<open>The styled rows\<close>

lemma cell_data_Inr:
  "cell_data i row cell =
     Inr \<lparr>UserEnteredValue = \<lparr>StringValue = cell\<rparr>,
          UserEnteredFormat =
            \<lparr>TextFormat =
               \<lparr>Bold = (i = 0 \<or> (row \<noteq> [] \<and> (hd row = ''Total'' \<or> hd row = ''Subtotal'')))\<rparr>,
             BackgroundColor =
               (if row \<noteq> [] \<and> hd row = ''Subtotal''
                then Some \<lparr>Blue = 0.96, Green = 0.96, Red = 0.96\<rparr>
                else if row \<noteq> [] \<and> hd row = ''Total''
                then Some \<lparr>Blue = 0.92, Green = 0.92, Red = 0.92\<rparr>
                else None)\<rparr>\<rparr>"
  by (cases row) (auto simp: cell_data_def index_def Let_def)

lemma cell_data_styled: "cell_data i row cell = Inr (styled i row cell)"
  by (simp add: styled_def cell_data_Inr)

lemma row_values_eq: "row_values i row cells values = Inr (values @ map (styled i row) cells)"
  by (induction cells arbitrary: "values") (simp_all add: cell_data_styled)

lemma sheet_rows_eq:
  "sheet_rows i rows rd =
     Inr (rd @ map (\<lambda>(k, row). \<lparr>Values = map (styled k row) row\<rparr>) (enumerate i rows))"
  by (induction rows arbitrary: i rd) (simp_all add: row_values_eq)

lemma styled_rows_eq:
  "styled_rows cells =
     Inr (map (\<lambda>(k, row). \<lparr>Values = map (styled k row) row\<rparr>) (enumerate 0 cells))"
  by (simp add: styled_rows_def sheet_rows_eq)

lemma styled_value: "StringValue (UserEnteredValue (styled i row cell)) = cell"
  by (simp add: styled_def cell_data_Inr)

text \<open>
  Claim C2, as the code has it. The cell in row \<open>i\<close> and column \<open>j\<close> of the styled rows is
  bold exactly when \<open>i\<close> is 0 or the first cell of its row is \<open>Total\<close> or \<open>Subtotal\<close>. Its
  background colour depends on the first cell of its row alone, whatever the index of
  the row: 0.96 in all three components when that cell is \<open>Subtotal\<close>, 0.92 when it is
  \<open>Total\<close>, and none otherwise.
\<close>

theorem styled_cell_format:
  assumes "i < length cells" and "j < length (cells ! i)"
  shows "\<exists>rd. styled_rows cells = Inr rd
           \<and> Bold (TextFormat (UserEnteredFormat (Values (rd ! i) ! j)))
               = (i = 0 \<or> cells ! i ! 0 = ''Total'' \<or> cells ! i ! 0 = ''Subtotal'')
           \<and> BackgroundColor (UserEnteredFormat (Values (rd ! i) ! j))
               = (if cells ! i ! 0 = ''Subtotal''
                  then Some \<lparr>Blue = 0.96, Green = 0.96, Red = 0.96\<rparr>
                  else if cells ! i ! 0 = ''Total''
                  then Some \<lparr>Blue = 0.92, Green = 0.92, Red = 0.92\<rparr>
                  else None)"
proof -
  from assms have ne: "cells ! i \<noteq> []" by auto
  then have hd: "hd (cells ! i) = cells ! i ! 0" by (simp add: hd_conv_nth)
  have row: "map (\<lambda>(k, row). \<lparr>Values = map (styled k row) row\<rparr>) (enumerate 0 cells) ! i
             = \<lparr>Values = map (styled i (cells ! i)) (cells ! i)\<rparr>"
    using assms(1) by (simp add: nth_enumerate_eq)
  show ?thesis
    using assms ne hd by (simp add: styled_rows_eq row styled_def cell_data_Inr)
qed

text \<open>
  The theorem at the last cell of a report with a header, a row of data and a total: the
  cell is bold and has the colour of a total.
\<close>

theorem styled_cell_format_witness:
  "2 < length [[''Name'', ''Count''], [''a'', ''1''], [''Total'', ''1'']]
   \<and> 1 < length ([[''Name'', ''Count''], [''a'', ''1''], [''Total'', ''1'']] ! 2)
   \<and> (\<exists>rd. styled_rows [[''Name'', ''Count''], [''a'', ''1''], [''Total'', ''1'']] = Inr rd
          \<and> Bold (TextFormat (UserEnteredFormat (Values (rd ! 2) ! 1)))
          \<and> BackgroundColor (UserEnteredFormat (Values (rd ! 2) ! 1))
               = Some \<lparr>Blue = 0.92, Green = 0.92, Red = 0.92\<rparr>)"
  using styled_cell_format [of 2 "[[''Name'', ''Count''], [''a'', ''1''], [''Total'', ''1'']]" 1]
  by simp

text \<open>
  Claim C2 as the specification states it fails: a header row, which is row 0, whose
  first cell is \<open>Total\<close> gets the background colour of a total in each of its cells.
\<close>

theorem header_total_background:
  "styled_rows [[''Total'', ''Count'']] =
     Inr [\<lparr>Values =
            [\<lparr>UserEnteredValue = \<lparr>StringValue = ''Total''\<rparr>,
              UserEnteredFormat = \<lparr>TextFormat = \<lparr>Bold = True\<rparr>,
                BackgroundColor = Some \<lparr>Blue = 0.92, Green = 0.92, Red = 0.92\<rparr>\<rparr>\<rparr>,
             \<lparr>UserEnteredValue = \<lparr>StringValue = ''Count''\<rparr>,
              UserEnteredFormat = \<lparr>TextFormat = \<lparr>Bold = True\<rparr>,
                BackgroundColor = Some \<lparr>Blue = 0.92, Green = 0.92, Red = 0.92\<rparr>\<rparr>\<rparr>]\<rparr>]"
  by (simp add: styled_rows_def cell_data_def index_def Let_def)

text \<open>
  Claim C6. The styled rows of a report keep its shape: reading the string value of
  every cell of every styled row, in order, gives the report back. So there are as
  many styled rows as rows, as many styled cells in each as cells, each with the string
  of its cell, whatever the rows hold.
\<close>

theorem styled_rows_preserve_structure:
  "\<exists>rd. styled_rows cells = Inr rd
        \<and> map (\<lambda>r. map (\<lambda>cd. StringValue (UserEnteredValue cd)) (Values r)) rd = cells"
proof -
  have "map (\<lambda>r. map (\<lambda>cd. StringValue (UserEnteredValue cd)) (Values r))
          (map (\<lambda>(k, row). \<lparr>Values = map (styled k row) row\<rparr>) (enumerate i cells)) = cells" for i
    by (induction cells arbitrary: i) (simp_all add: styled_value comp_def)
  then show ?thesis
    by (simp add: styled_rows_eq)
qed

text \<open>
  Claim C8. Building a cell, and building the rows of a table from any index on, never
  panics, whatever the shape of the rows: \<open>row[0]\<close> is read under the guard on the length
  only. A row without cells gives no cell at all, at any index, and so a styled row
  whose \<open>Values\<close> are empty.
\<close>

theorem empty_row_no_cells:
  "(\<exists>cd. cell_data i row cell = Inr cd)
   \<and> (\<exists>rd'. sheet_rows i rows rd = Inr rd')
   \<and> row_values i [] [] [] = Inr []
   \<and> sheet_rows i ([] # rows) rd = sheet_rows (Suc i) rows (rd @ [\<lparr>Values = []\<rparr>])"
  by (simp add: cell_data_styled sheet_rows_eq)

subsection \<open>The \<open>-sheets\<close> flag\<close>

lemma TrimPrefix_append: "TrimPrefix (p @ s) p = s"
  by (simp add: TrimPrefix_def)

lemma TrimSuffix_append: "TrimSuffix (s @ x) x = s"
  by (simp add: TrimSuffix_def)

lemma slash_not_id_char: "\<not> is_id_char CHR ''/''"
  by (simp add: is_id_char_def)

lemma match_here_id:
  assumes "ident \<noteq> []" and "\<forall>c \<in> set ident. is_id_char c"
  shows "match_here (''/spreadsheets/d/'' @ ident @ ''/'')
           = [''/spreadsheets/d/'' @ ident, ident, ident]"
proof -
  have "takeWhile is_id_char (ident @ ''/'') = ident"
    using assms(2) by (simp add: takeWhile_append2 slash_not_id_char)
  then show ?thesis
    using assms(1) by (simp add: match_here_def Let_def)
qed

lemma FindStringSubmatch_id:
  assumes "ident \<noteq> []" and "\<forall>c \<in> set ident. is_id_char c"
  shows "FindStringSubmatch (''/spreadsheets/d/'' @ ident @ ''/'')
           = [''/spreadsheets/d/'' @ ident, ident, ident]"
  using match_here_id [OF assms] by simp

lemma id_of_match_found:
  "id_of_match 0 SubexpNames [whole, ident, inner] spreadsheetID = Inr ident"
  by (simp add: SubexpNames_def index_def)

text \<open>
  Claim C4. The empty flag is \<open>Absent\<close>, the flag \<open>new\<close> is \<open>New\<close>, and a flag of the form
  \<open>https://docs.google.com/spreadsheets/d/<ID>/edit#gid=0\<close>, where \<open><ID>\<close> is a non-empty
  string of letters, digits, hyphens and underscores, is \<open>Existing\<close> with that identifier.
\<close>

theorem spreadsheet_reference_cases:
  "spreadsheet_reference '''' = Inr Absent
   \<and> spreadsheet_reference ''new'' = Inr New
   \<and> (ident \<noteq> [] \<and> (\<forall>c \<in> set ident. is_id_char c) \<longrightarrow>
        spreadsheet_reference (''https://docs.google.com/spreadsheets/d/'' @ ident @ ''/edit#gid=0'')
          = Inr (Existing ident))"
proof (intro conjI impI)
  show "spreadsheet_reference '''' = Inr Absent"
    by (simp add: spreadsheet_reference_def spreadsheet_id_def)
  show "spreadsheet_reference ''new'' = Inr New"
    by (simp add: spreadsheet_reference_def spreadsheet_id_def)
next
  assume a: "ident \<noteq> [] \<and> (\<forall>c \<in> set ident. is_id_char c)"
  let ?flag = "''https://docs.google.com/spreadsheets/d/'' @ ident @ ''/edit#gid=0''"
  have split: "?flag = ''https://docs.google.com'' @ (''/spreadsheets/d/'' @ ident @ ''/'') @ ''edit#gid=0''"
    by simp
  have trimmed: "TrimSuffix (TrimPrefix ?flag ''https://docs.google.com'') ''edit#gid=0''
                   = ''/spreadsheets/d/'' @ ident @ ''/''"
    unfolding split TrimPrefix_append TrimSuffix_append ..
  have found: "id_of_match 0 SubexpNames
                 (FindStringSubmatch (''/spreadsheets/d/'' @ ident @ ''/'')) '''' = Inr ident"
  proof -
    from a have "FindStringSubmatch (''/spreadsheets/d/'' @ ident @ ''/'')
                   = [''/spreadsheets/d/'' @ ident, ident, ident]"
      by (intro FindStringSubmatch_id) simp_all
    then show ?thesis
      by (simp only: id_of_match_found)
  qed
  have id: "spreadsheet_id ?flag = Inr ident"
    unfolding spreadsheet_id_def Let_def trimmed found using a by simp
  show "spreadsheet_reference ?flag = Inr (Existing ident)"
    unfolding spreadsheet_reference_def id by simp
qed

text \<open>The theorem at the URL of the specification, whose identifier is \<open>ABC123xyz_-\<close>.\<close>

theorem spreadsheet_reference_cases_witness:
  "''ABC123xyz_-'' \<noteq> [] \<and> list_all is_id_char ''ABC123xyz_-''
   \<and> spreadsheet_reference ''https://docs.google.com/spreadsheets/d/ABC123xyz_-/edit#gid=0''
        = Inr (Existing ''ABC123xyz_-'')"
  using spreadsheet_reference_cases [of "''ABC123xyz_-''"]
  by (simp add: is_id_char_def)

text \<open>
  Claim C3 does not hold of the code. For the URL of a document that is not a
  spreadsheet the pattern has no match, \<open>match\<close> is \<open>nil\<close>, and the loop over the names of
  the groups reads \<open>match[1]\<close>: the program panics before it reaches the test that would
  end it with \<open>log.Fatalf\<close>.
\<close>

theorem no_match_panics:
  "spreadsheet_id ''https://docs.google.com/document/d/ABC123xyz_-/edit''
     = Inl (Panic ''index out of range'')"
  by (simp add: spreadsheet_id_def TrimPrefix_def TrimSuffix_def match_here_def
        SubexpNames_def index_def Let_def)

text \<open>
  The same for every flag without a match; and no flag at all ends in the fatal error,
  since a match never has an empty identifier.
\<close>

lemma no_match_always_panics:
  assumes "flag \<noteq> ''new''" and "flag \<noteq> ''''"
    and "FindStringSubmatch (TrimSuffix (TrimPrefix flag ''https://docs.google.com'') ''edit#gid=0'')
           = []"
  shows "spreadsheet_id flag = Inl (Panic ''index out of range'')"
  using assms by (simp add: spreadsheet_id_def Let_def SubexpNames_def index_def)

lemma match_here_shape:
  "match_here s = [] \<or> (\<exists>whole run. run \<noteq> [] \<and> match_here s = [whole, run, run])"
  by (simp add: match_here_def Let_def)

lemma FindStringSubmatch_shape:
  "FindStringSubmatch s = []
   \<or> (\<exists>whole run. run \<noteq> [] \<and> FindStringSubmatch s = [whole, run, run])"
  by (induction s) (use match_here_shape in auto)

lemma spreadsheet_id_never_fatal: "spreadsheet_id flag \<noteq> Inl (Fatal msg)"
  using FindStringSubmatch_shape
    [of "TrimSuffix (TrimPrefix flag ''https://docs.google.com'') ''edit#gid=0''"]
  by (auto simp: spreadsheet_id_def Let_def SubexpNames_def index_def)

subsection \<open>The accumulator across a call of \<open>write\<close>\<close>

lemma range_over_keys: "fst ` set (range_over m ks) \<subseteq> dom m"
  by (induction ks) (auto split: option.splits)

lemma range_over_distinct: "distinct ks \<Longrightarrow> distinct (map fst (range_over m ks))"
proof (induction ks)
  case Nil
  show ?case by simp
next
  case (Cons k ks)
  have "fst ` set (range_over m ks) \<subseteq> set ks"
    by (induction ks) (auto split: option.splits)
  with Cons show ?case
    by (auto split: option.splits)
qed

lemma range_over_member:
  "k \<in> set ks \<Longrightarrow> m k = Some v \<Longrightarrow> (k, v) \<in> set (range_over m ks)"
  by (induction ks) (auto split: option.splits)

lemma add_sheets_frame:
  "\<exists>m. add_sheets entries rowData = Inr m \<and> (\<forall>t. t \<notin> fst ` set entries \<longrightarrow> m t = rowData t)"
proof (induction entries arbitrary: rowData)
  case Nil
  show ?case by simp
next
  case (Cons entry entries)
  obtain title cells where entry: "entry = (title, cells)" by (cases entry)
  obtain rd where rd: "styled_rows cells = Inr rd" by (simp add: styled_rows_eq)
  from Cons [of "rowData(title \<mapsto> rd)"] obtain m
    where m: "add_sheets entries (rowData(title \<mapsto> rd)) = Inr m"
      and frame: "\<forall>t. t \<notin> fst ` set entries \<longrightarrow> m t = (rowData(title \<mapsto> rd)) t"
    by blast
  have "add_sheets (entry # entries) rowData = Inr m"
    by (simp add: entry rd m)
  moreover have "m t = rowData t" if "t \<notin> fst ` set (entry # entries)" for t
    using that frame by (simp add: entry)
  ultimately show ?case by blast
qed



text \<open>
  Claim C10. A call of \<open>write\<close> returns, and at every key that is not a report name of
  \<open>data\<close> the map \<open>rowData\<close> holds after the call what it held before.
\<close>

theorem write_changes_batch_keys_only:
  "\<exists>r. write_data sys ks1 ks2 fs0 outputDir data rowData = Inr r
      \<and> (\<forall>title. title \<notin> dom data \<longrightarrow> accumulator r title = rowData title)"
proof -
  obtain e fs1 filenames
    where wf: "write_files sys outputDir (range_over data ks1) fs0 [] = (e, fs1, filenames)"
    by (cases "write_files sys outputDir (range_over data ks1) fs0 []")
  show ?thesis
  proof (cases e)
    case None
    obtain m where m: "add_sheets (range_over data ks2) rowData = Inr m"
      and frame: "\<forall>t. t \<notin> fst ` set (range_over data ks2) \<longrightarrow> m t = rowData t"
      using add_sheets_frame by blast
    have "m title = rowData title" if "title \<notin> dom data" for title
      using that frame range_over_keys [of data ks2] by blast
    with wf None m show ?thesis
      by (simp add: write_data_def)
  next
    case (Some x)
    with wf show ?thesis
      by (simp add: write_data_def)
  qed
qed

text \<open>
  The theorem at a successful call for the report \<open>go-issues\<close>, with \<open>go-cls\<close> in the map
  from an earlier call: \<open>go-issues\<close> is added and \<open>go-cls\<close> is as before.
\<close>

theorem write_changes_batch_keys_only_witness:
  "''go-cls'' \<notin> dom [''go-issues'' \<mapsto> [[''Issue''], [''#1'']]]
   \<and> (\<exists>r. write_data plain_os [''go-issues''] [''go-issues''] Map.empty ''/tmp/work-stats''
          [''go-issues'' \<mapsto> [[''Issue''], [''#1'']]] [''go-cls'' \<mapsto> three_rows] = Inr r
      \<and> err r = None
      \<and> accumulator r ''go-issues'' \<noteq> None
      \<and> accumulator r ''go-cls'' = Some three_rows)"
  using write_changes_batch_keys_only [of plain_os "[''go-issues'']" "[''go-issues'']" Map.empty
      "''/tmp/work-stats''" "[''go-issues'' \<mapsto> [[''Issue''], [''#1'']]]"
      "[''go-cls'' \<mapsto> three_rows]"]
  by (auto simp: write_data_def plain_os_def styled_rows_eq Let_def)

subsection \<open>The calls to the service\<close>





lemma visits_single:
  assumes "dom rowData = {title}" and "visits rowData ks"
  shows "ks = [title]"
proof -
  from assms have d: "distinct ks" and s: "set ks = {title}"
    by (simp_all add: visits_def)
  from d s have "length ks = card {title}"
    using distinct_card by metis
  then have "length ks = 1" by simp
  then obtain k where "ks = [k]"
    by (cases ks) simp_all
  with s show ?thesis by simp
qed

text \<open>
  Claim C1, as the code has it. With one report in \<open>rowData\<close>, \<open>appendToSheet\<close> first
  makes one \<open>BatchUpdate\<close> call with one \<open>AddSheet\<close> request, for a sheet with the name of
  the report and a frozen first row. When that call fails it makes no other. When it
  succeeds it makes one more \<open>BatchUpdate\<close> call, which holds one \<open>AppendCells\<close> request
  for every sheet of the spreadsheet sent back, in their order there, each with the
  identifier of its sheet and the rows that \<open>rowData\<close> has under the title of the sheet:
  the rows of the report for the new sheet, no rows for a sheet with another title.
\<close>

theorem appendToSheet_one_report:
  assumes "dom rowData = {title}" and "visits rowData ks"
  shows "calls (appendToSheet srv s ks spreadsheetID rowData) =
           (let create_call = BatchUpdate spreadsheetID
                  \<lparr>IncludeSpreadsheetInResponse = True,
                   Requests = [AddSheet \<lparr>Title = title, SheetId = 0,
                                          GridProperties = Some \<lparr>FrozenRowCount = 1\<rparr>\<rparr>]\<rparr>
            in case srv s create_call of
                 (Inl e, s1) \<Rightarrow> [create_call]
               | (Inr response, s1) \<Rightarrow>
                   [create_call,
                    BatchUpdate spreadsheetID
                      \<lparr>IncludeSpreadsheetInResponse = True,
                       Requests = map (\<lambda>sheet. AppendCells (SheetId (Properties sheet))
                                                 (lookup rowData (Title (Properties sheet))) ''*'')
                                    (Sheets response)\<rparr>])"
proof -
  have ks: "ks = [title]"
    using assms by (rule visits_single)
  from assms(1) obtain rows where rows: "rowData title = Some rows"
    by auto
  have r: "range_over rowData ks = [(title, rows)]"
    by (simp add: ks rows)
  show ?thesis
    by (simp add: appendToSheet_def r add_sheet_request_def append_cells_request_def Let_def
          split: prod.splits sum.splits)
qed

text \<open>
  The theorem for the report \<open>github-issues\<close> and a service whose spreadsheet has one tab
  already: two calls are made.
\<close>

theorem appendToSheet_one_report_witness:
  "dom [''github-issues'' \<mapsto> three_rows] = {''github-issues''}
   \<and> visits [''github-issues'' \<mapsto> three_rows] [''github-issues'']
   \<and> length (calls (appendToSheet sheets_service one_tab_doc [''github-issues''] ''ABC123xyz_-''
                      [''github-issues'' \<mapsto> three_rows])) = 2"
proof -
  have d: "dom [''github-issues'' \<mapsto> three_rows] = {''github-issues''}" by simp
  have v: "visits [''github-issues'' \<mapsto> three_rows] [''github-issues'']"
    by (simp add: visits_def)
  show ?thesis
    using d v appendToSheet_one_report [OF d v, of sheets_service one_tab_doc "''ABC123xyz_-''"]
    by (simp add: Let_def)
qed

text \<open>
  Claim C1 as the specification states it fails. The spreadsheet has the tab \<open>Sheet1\<close>,
  with identifier 0, before the call; the service gives the new tab the identifier 1001.
  The second call holds two \<open>AppendCells\<close> requests, and the first of them is for the
  tab that was there before.
\<close>

theorem append_to_existing_tab:
  "calls (appendToSheet sheets_service one_tab_doc [''github-issues''] ''ABC123xyz_-''
            [''github-issues'' \<mapsto> three_rows])
     = [BatchUpdate ''ABC123xyz_-''
          \<lparr>IncludeSpreadsheetInResponse = True,
           Requests = [AddSheet \<lparr>Title = ''github-issues'', SheetId = 0,
                                  GridProperties = Some \<lparr>FrozenRowCount = 1\<rparr>\<rparr>]\<rparr>,
        BatchUpdate ''ABC123xyz_-''
          \<lparr>IncludeSpreadsheetInResponse = True,
           Requests = [AppendCells 0 [] ''*'', AppendCells 1001 three_rows ''*'']\<rparr>]"
  by (simp add: appendToSheet_def add_sheet_request_def append_cells_request_def Let_def
        one_tab_doc_def lookup_def)

subsection \<open>The bytes of a file and what the reader makes of them\<close>

lemma special_chars_differ:
  "quote \<noteq> Comma" "quote \<noteq> newline" "quote \<noteq> carriage_return"
  "Comma \<noteq> newline" "Comma \<noteq> carriage_return" "newline \<noteq> carriage_return"
  "Comma \<noteq> quote" "newline \<noteq> quote" "carriage_return \<noteq> quote"
  "newline \<noteq> Comma" "carriage_return \<noteq> Comma" "carriage_return \<noteq> newline"
  by (simp_all add: quote_def Comma_def newline_def carriage_return_def)

lemma unquoted_field_chars:
  assumes "\<not> fieldNeedsQuotes field"
  shows "quote \<notin> set field \<and> Comma \<notin> set field \<and> newline \<notin> set field
         \<and> carriage_return \<notin> set field"
  using assms by (cases "field = []") (auto simp: fieldNeedsQuotes_def split: if_splits)

text \<open>Strings that \<open>normalize_crlf\<close> leaves as they are, put one after the other.\<close>

lemma normalize_append:
  "normalize_crlf a = a \<Longrightarrow> normalize_crlf b = b \<Longrightarrow> normalize_crlf (a @ b) = a @ b"
proof (induction a rule: normalize_crlf.induct)
  case 1
  then show ?case by simp
next
  case (2 c)
  then show ?case by (cases b) (auto split: if_splits)
next
  case (3 c d cs)
  then show ?case by (auto split: if_splits simp: special_chars_differ)
qed

lemma normalize_no_cr: "carriage_return \<notin> set s \<Longrightarrow> normalize_crlf s = s"
  by (induction s rule: normalize_crlf.induct) auto

lemma quoted_body_Cons:
  "quoted_body (d # cs) @ [quote]
     = (if d = quote then quote else d) # tl (quoted_body (d # cs) @ [quote])"
  by simp

lemma normalize_quoted_body:
  "no_crlf field \<Longrightarrow> normalize_crlf (quoted_body field @ [quote]) = quoted_body field @ [quote]"
proof (induction field rule: no_crlf.induct)
  case 1
  then show ?case by (simp add: special_chars_differ)
next
  case (2 c)
  then show ?case by (simp add: special_chars_differ)
next
  case (3 c d cs)
  from "3.prems" have nc: "\<not> (c = carriage_return \<and> d = newline)"
    and rest: "no_crlf (d # cs)"
    by simp_all
  have IH: "normalize_crlf (quoted_body (d # cs) @ [quote]) = quoted_body (d # cs) @ [quote]"
    using rest by (rule "3.IH")
  show ?case
  proof (cases "c = quote")
    case True
    have qq: "normalize_crlf [quote, quote] = [quote, quote]"
      by (simp add: special_chars_differ)
    from normalize_append [OF qq IH] True show ?thesis by simp
  next
    case False
    obtain y ys where y: "quoted_body (d # cs) @ [quote] = y # ys"
      and yd: "y = (if d = quote then quote else d)"
      using quoted_body_Cons [of d cs] by blast
    have "\<not> (c = carriage_return \<and> y = newline)"
      using nc yd by (auto simp: special_chars_differ)
    then have "normalize_crlf (c # y # ys) = c # normalize_crlf (y # ys)"
      by auto
    with IH y False show ?thesis by simp
  qed
qed

lemma normalize_csv_field: "no_crlf field \<Longrightarrow> normalize_crlf (csv_field field) = csv_field field"
proof (cases "fieldNeedsQuotes field")
  case True
  assume "no_crlf field"
  then have "normalize_crlf ([quote] @ (quoted_body field @ [quote]))
               = [quote] @ (quoted_body field @ [quote])"
    by (intro normalize_append normalize_quoted_body) (simp add: special_chars_differ)
  with True show ?thesis by (simp add: csv_field_def)
next
  case False
  then show ?thesis
    using unquoted_field_chars [of field] by (simp add: csv_field_def normalize_no_cr)
qed

lemma normalize_csv_fields:
  "\<forall>cell \<in> set row. no_crlf cell \<Longrightarrow> normalize_crlf (csv_fields k row) = csv_fields k row"
proof (induction row arbitrary: k)
  case Nil
  show ?case by simp
next
  case (Cons field row)
  have c: "normalize_crlf (if k > 0 then [Comma] else []) = (if k > 0 then [Comma] else [])"
    by (simp add: special_chars_differ)
  have "normalize_crlf ((if k > 0 then [Comma] else []) @ (csv_field field @ csv_fields (Suc k) row))
          = (if k > 0 then [Comma] else []) @ (csv_field field @ csv_fields (Suc k) row)"
    using Cons by (intro normalize_append c normalize_csv_field) simp_all
  then show ?case by simp
qed

lemma normalize_csv_record:
  "\<forall>cell \<in> set row. no_crlf cell \<Longrightarrow> normalize_crlf (csv_record row) = csv_record row"
  unfolding csv_record_def
  by (intro normalize_append normalize_csv_fields) (simp_all add: special_chars_differ)

lemma normalize_csv_file:
  "\<forall>row \<in> set cells. \<forall>cell \<in> set row. no_crlf cell \<Longrightarrow>
   normalize_crlf (csv_file cells) = csv_file cells"
proof (induction cells)
  case Nil
  show ?case by (simp add: csv_file_def)
next
  case (Cons row cells)
  then have "normalize_crlf (csv_record row @ csv_file cells) = csv_record row @ csv_file cells"
    by (intro normalize_append normalize_csv_record) simp_all
  then show ?case by (simp add: csv_file_def)
qed

text \<open>The reader on the bytes of a field, of a record and of a file.\<close>

lemma scan_unquoted_run:
  "quote \<notin> set f \<Longrightarrow> Comma \<notin> set f \<Longrightarrow> newline \<notin> set f \<Longrightarrow>
   scan Unquoted n field row recs (f @ rest) = scan Unquoted n (field @ f) row recs rest"
  by (induction f arbitrary: field) auto

lemma scan_quoted_body:
  "scan Quoted n field row recs (quoted_body f @ quote # rest)
     = scan AfterQuote n (field @ f) row recs rest"
  by (induction f arbitrary: field) auto

lemma scan_field:
  "scan FieldStart n [] row recs (csv_field f @ d # rest)
     = (if d = Comma then scan FieldStart n [] (row @ [f]) recs rest
        else if d = newline then end_record n (row @ [f]) recs rest
        else scan FieldStart n [] row recs (csv_field f @ d # rest))"
proof (cases "fieldNeedsQuotes f")
  case True
  have "scan FieldStart n [] row recs (quote # quoted_body f @ quote # d # rest)
          = scan AfterQuote n f row recs (d # rest)"
    using scan_quoted_body [of n "[]" row recs f "d # rest"] by simp
  with True show ?thesis
    by (simp add: csv_field_def end_record_def special_chars_differ)
next
  case False
  note chars = unquoted_field_chars [OF False]
  show ?thesis
  proof (cases f)
    case Nil
    with False show ?thesis
      by (simp add: csv_field_def end_record_def special_chars_differ)
  next
    case (Cons c f')
    with chars have c: "c \<noteq> quote" "c \<noteq> Comma" "c \<noteq> newline"
      and f': "quote \<notin> set f'" "Comma \<notin> set f'" "newline \<notin> set f'"
      by auto
    have "scan FieldStart n [] row recs (c # f' @ d # rest)
            = scan Unquoted n (c # f') row recs (d # rest)"
      using c scan_unquoted_run [OF f', of n "[c]" row recs "d # rest"] by simp
    with False Cons show ?thesis
      by (simp add: csv_field_def end_record_def special_chars_differ)
  qed
qed

lemma scan_fields:
  "scan FieldStart n [] row recs (csv_field f @ csv_fields (Suc k) fs @ newline # rest)
     = end_record n (row @ f # fs) recs rest"
proof (induction fs arbitrary: f row k)
  case Nil
  show ?case using scan_field [of n row recs f newline rest]
    by (simp add: special_chars_differ)
next
  case (Cons g gs)
  have "scan FieldStart n [] row recs
          (csv_field f @ Comma # (csv_field g @ csv_fields (Suc (Suc k)) gs @ newline # rest))
          = scan FieldStart n [] (row @ [f]) recs
              (csv_field g @ csv_fields (Suc (Suc k)) gs @ newline # rest)"
    by (subst scan_field) simp
  also have "\<dots> = end_record n ((row @ [f]) @ g # gs) recs rest"
    by (rule Cons)
  finally show ?case by simp
qed

lemma record_starts:
  assumes "row = f # fs" and "row \<noteq> [[]]"
  shows "\<exists>c cs. csv_field f @ csv_fields (Suc 0) fs @ newline # rest = c # cs \<and> c \<noteq> newline"
proof (cases "fieldNeedsQuotes f")
  case True
  then show ?thesis by (simp add: csv_field_def special_chars_differ)
next
  case False
  note chars = unquoted_field_chars [OF False]
  show ?thesis
  proof (cases f)
    case Nil
    with assms obtain g gs where "fs = g # gs" by (cases fs) auto
    with Nil False show ?thesis by (simp add: csv_field_def special_chars_differ)
  next
    case (Cons c f')
    with chars False show ?thesis by (auto simp: csv_field_def)
  qed
qed

lemma scan_RecordStart_FieldStart:
  "c \<noteq> newline \<Longrightarrow>
   scan RecordStart n field row recs (c # cs) = scan FieldStart n field row recs (c # cs)"
  by simp

lemma scan_record:
  assumes "row \<noteq> []" and "row \<noteq> [[]]"
  shows "scan RecordStart n [] [] recs (csv_record row @ rest) = end_record n row recs rest"
proof -
  from assms(1) obtain f fs where row: "row = f # fs" by (cases row) auto
  obtain c cs where s: "csv_field f @ csv_fields (Suc 0) fs @ newline # rest = c # cs"
    and c: "c \<noteq> newline"
    using record_starts [OF row assms(2)] by blast
  have "scan RecordStart n [] [] recs (csv_field f @ csv_fields (Suc 0) fs @ newline # rest)
          = scan FieldStart n [] [] recs (csv_field f @ csv_fields (Suc 0) fs @ newline # rest)"
    unfolding s using c by (rule scan_RecordStart_FieldStart)
  also have "\<dots> = end_record n ([] @ f # fs) recs rest"
    by (rule scan_fields)
  finally show ?thesis
    by (simp add: row csv_record_def)
qed

lemma scan_file:
  assumes "\<forall>row \<in> set cells. row \<noteq> [] \<and> row \<noteq> [[]] \<and> length row = m" and "n = 0 \<or> n = m"
  shows "scan RecordStart n [] [] recs (csv_file cells) = Inr (recs @ cells)"
  using assms
proof (induction cells arbitrary: n recs)
  case Nil
  show ?case by (simp add: csv_file_def)
next
  case (Cons row cells)
  then have row: "row \<noteq> []" "row \<noteq> [[]]" "length row = m"
    and rest: "\<forall>row \<in> set cells. row \<noteq> [] \<and> row \<noteq> [[]] \<and> length row = m"
    by simp_all
  from row Cons.prems(2) have acc: "accept n row = Inr m"
    by (auto simp: accept_def)
  have "scan RecordStart n [] [] recs (csv_record row @ csv_file cells)
          = scan RecordStart m [] [] (recs @ [row]) (csv_file cells)"
    by (simp add: scan_record [OF row(1,2)] end_record_def acc)
  also have "\<dots> = Inr ((recs @ [row]) @ cells)"
    using rest by (intro Cons.IH) simp_all
  finally show ?case by (simp add: csv_file_def)
qed

lemma csv_round_trip:
  assumes "\<forall>row \<in> set cells. row \<noteq> [] \<and> row \<noteq> [[]] \<and> length row = length (hd cells)
             \<and> (\<forall>cell \<in> set row. no_crlf cell)"
  shows "ReadAll (csv_file cells) = Inr cells"
proof -
  have "normalize_crlf (csv_file cells) = csv_file cells"
    using assms by (intro normalize_csv_file) simp
  moreover have "scan RecordStart 0 [] [] [] (csv_file cells) = Inr ([] @ cells)"
    using assms by (intro scan_file [where m = "length (hd cells)"]) simp_all
  ultimately show ?thesis by (simp add: ReadAll_def)
qed

text \<open>The bytes that the first loop of \<open>write\<close> leaves in the file of a report.\<close>

lemma write_rows_bytes:
  "write_rows sys fullpath rows written = (None, written') \<Longrightarrow> written' = written @ csv_file rows"
proof (induction rows arbitrary: written)
  case Nil
  then show ?case by (simp add: csv_file_def)
next
  case (Cons row rows)
  from Cons.prems have "write_rows sys fullpath rows (written @ csv_record row) = (None, written')"
    by (auto split: option.splits)
  from Cons.IH [OF this] show ?case
    by (simp add: csv_file_def)
qed

lemma write_files_other_path:
  "write_files sys outputDir entries files0 filenames = (e, files1, filenames1) \<Longrightarrow>
   \<forall>(k, c) \<in> set entries. Join sys outputDir (k @ ''.csv'') \<noteq> path \<Longrightarrow>
   files1 path = files0 path"
proof (induction entries arbitrary: files0 filenames)
  case Nil
  then show ?case by simp
next
  case (Cons entry entries)
  obtain k c where entry: "entry = (k, c)" by (cases entry)
  from Cons.prems(2) have k: "Join sys outputDir (k @ ''.csv'') \<noteq> path"
    and rest: "\<forall>(k, c) \<in> set entries. Join sys outputDir (k @ ''.csv'') \<noteq> path"
    by (simp_all add: entry)
  show ?case
  proof (cases "Create_err sys files0 (Join sys outputDir (k @ ''.csv''))")
    case (Some x)
    with Cons.prems(1) show ?thesis by (simp add: entry Let_def)
  next
    case None
    obtain e' written
      where w: "write_rows sys (Join sys outputDir (k @ ''.csv'')) c [] = (e', written)"
      by (cases "write_rows sys (Join sys outputDir (k @ ''.csv'')) c []")
    show ?thesis
    proof (cases e')
      case (Some x)
      with Cons.prems(1) None w k show ?thesis by (auto simp: entry Let_def)
    next
      case None': None
      from Cons.prems(1) None w None'
      have "write_files sys outputDir entries
              (files0(Join sys outputDir (k @ ''.csv'')
                 \<mapsto> Flush sys (Join sys outputDir (k @ ''.csv'')) written))
              (filenames @ [Join sys outputDir (k @ ''.csv'')]) = (e, files1, filenames1)"
        by (simp add: entry Let_def)
      from Cons.IH [OF this rest] k show ?thesis by simp
    qed
  qed
qed

lemma write_files_bytes:
  "write_files sys outputDir entries files0 filenames = (None, files1, filenames1) \<Longrightarrow>
   distinct (map fst entries) \<Longrightarrow> (name, cells) \<in> set entries \<Longrightarrow>
   \<forall>(k, c) \<in> set entries.
      Join sys outputDir (k @ ''.csv'') = Join sys outputDir (name @ ''.csv'') \<longrightarrow> k = name \<Longrightarrow>
   files1 (Join sys outputDir (name @ ''.csv''))
     = Some (Flush sys (Join sys outputDir (name @ ''.csv'')) (csv_file cells))"
proof (induction entries arbitrary: files0 filenames)
  case Nil
  then show ?case by simp
next
  case (Cons entry entries)
  obtain k c where entry: "entry = (k, c)" by (cases entry)
  let ?path = "Join sys outputDir (k @ ''.csv'')"
  from Cons.prems(1) have create: "Create_err sys files0 ?path = None"
    by (auto simp: entry Let_def split: option.splits)
  obtain e' written where w: "write_rows sys ?path c [] = (e', written)"
    by (cases "write_rows sys ?path c []")
  from Cons.prems(1) create w have e': "e' = None"
    by (auto simp: entry Let_def split: option.splits)
  from Cons.prems(1) create w e'
  have run: "write_files sys outputDir entries (files0(?path \<mapsto> Flush sys ?path written))
               (filenames @ [?path]) = (None, files1, filenames1)"
    by (simp add: entry Let_def)
  have written: "written = csv_file c"
    using write_rows_bytes [of sys ?path c "[]" written] w e' by simp
  from Cons.prems(2) have k_fresh: "k \<notin> fst ` set entries" and d: "distinct (map fst entries)"
    by (simp_all add: entry)
  from Cons.prems(4) have inj: "\<forall>(k, c) \<in> set entries.
      Join sys outputDir (k @ ''.csv'') = Join sys outputDir (name @ ''.csv'') \<longrightarrow> k = name"
    by simp
  show ?case
  proof (cases "k = name")
    case True
    with Cons.prems(3) k_fresh have c: "c = cells"
      by (force simp: entry)
    have "\<forall>(k', c') \<in> set entries. Join sys outputDir (k' @ ''.csv'') \<noteq> ?path"
      using inj k_fresh True by (force simp: image_iff)
    from write_files_other_path [OF run this] show ?thesis
      by (simp add: True written c)
  next
    case False
    with Cons.prems(3) have "(name, cells) \<in> set entries"
      by (simp add: entry)
    from Cons.IH [OF run d this inj] show ?thesis .
  qed
qed

text \<open>
  Claim C7, as the code has it. After a call of \<open>write\<close> that returns no error, the file
  of a report of the batch, when no other report of the batch is written to the same
  path, is read back by the reader as the table of the report, provided that every row
  of the table has at least one cell, no row is a single empty cell, all rows have as
  many cells as the first, in no cell a carriage return is followed at once by a line
  feed, and the deferred \<open>Flush\<close> has sent all the bytes of the table to the file.
\<close>

theorem flat_file_round_trip:
  assumes "write_data sys ks1 ks2 fs0 outputDir data rowData = Inr r" and "err r = None"
    and "visits data ks1" and "data name = Some cells"
    and "\<forall>other \<in> dom data.
           Join sys outputDir (other @ ''.csv'') = Join sys outputDir (name @ ''.csv'')
             \<longrightarrow> other = name"
    and "\<forall>row \<in> set cells. row \<noteq> [] \<and> row \<noteq> [''''] \<and> length row = length (hd cells)
           \<and> (\<forall>cell \<in> set row. no_crlf cell)"
    and "Flush sys (Join sys outputDir (name @ ''.csv'')) (csv_file cells) = csv_file cells"
  shows "\<exists>bytes. files r (Join sys outputDir (name @ ''.csv'')) = Some bytes
           \<and> ReadAll bytes = Inr cells"
proof -
  obtain e fs1 filenames
    where wf: "write_files sys outputDir (range_over data ks1) fs0 [] = (e, fs1, filenames)"
    by (cases "write_files sys outputDir (range_over data ks1) fs0 []")
  from assms(1,2) wf have e: "e = None" and fs1: "files r = fs1"
    by (auto simp: write_data_def split: option.splits sum.splits)
  from assms(3) have d: "distinct (map fst (range_over data ks1))"
    by (simp add: visits_def range_over_distinct)
  from assms(3,4) have mem: "(name, cells) \<in> set (range_over data ks1)"
    by (intro range_over_member) (auto simp: visits_def)
  have inj: "\<forall>(k, c) \<in> set (range_over data ks1).
      Join sys outputDir (k @ ''.csv'') = Join sys outputDir (name @ ''.csv'') \<longrightarrow> k = name"
    using assms(5) range_over_keys [of data ks1] by fastforce
  have "fs1 (Join sys outputDir (name @ ''.csv''))
          = Some (Flush sys (Join sys outputDir (name @ ''.csv'')) (csv_file cells))"
    using wf [unfolded e] d mem inj by (rule write_files_bytes)
  then have "fs1 (Join sys outputDir (name @ ''.csv'')) = Some (csv_file cells)"
    by (simp only: assms(7))
  moreover have "ReadAll (csv_file cells) = Inr cells"
    using assms(6) by (intro csv_round_trip) simp
  ultimately show ?thesis
    by (simp add: fs1)
qed

text \<open>
  The theorem at the report of the specification, three rows of two cells, written as
  \<open>go-issues\<close>: the file is read back as the same table.
\<close>

theorem flat_file_round_trip_witness:
  "visits [''go-issues'' \<mapsto> [[''A'', ''B''], [''1'', ''2''], [''Total'', ''3'']]] [''go-issues'']
   \<and> list_all (\<lambda>row. row \<noteq> [] \<and> row \<noteq> [''''] \<and> length row = 2 \<and> list_all no_crlf row)
         [[''A'', ''B''], [''1'', ''2''], [''Total'', ''3'']]
   \<and> (\<exists>r. write_data plain_os [''go-issues''] [''go-issues''] Map.empty ''/tmp/work-stats''
              [''go-issues'' \<mapsto> [[''A'', ''B''], [''1'', ''2''], [''Total'', ''3'']]] Map.empty
              = Inr r
          \<and> err r = None
          \<and> (\<exists>bytes. files r ''/tmp/work-stats/go-issues.csv'' = Some bytes
                \<and> ReadAll bytes = Inr [[''A'', ''B''], [''1'', ''2''], [''Total'', ''3'']]))"
proof -
  let ?cells = "[[''A'', ''B''], [''1'', ''2''], [''Total'', ''3'']]"
  let ?data = "[''go-issues'' \<mapsto> ?cells]"
  obtain r where run: "write_data plain_os [''go-issues''] [''go-issues''] Map.empty
                         ''/tmp/work-stats'' ?data Map.empty = Inr r"
    and ok: "err r = None"
    by (simp add: write_data_def plain_os_def Let_def styled_rows_eq)
  have v: "visits ?data [''go-issues'']"
    by (simp add: visits_def)
  have l: "?data ''go-issues'' = Some ?cells"
    by simp
  have inj: "\<forall>other \<in> dom ?data.
      Join plain_os ''/tmp/work-stats'' (other @ ''.csv'')
        = Join plain_os ''/tmp/work-stats'' (''go-issues'' @ ''.csv'') \<longrightarrow> other = ''go-issues''"
    by simp
  have shape: "\<forall>row \<in> set ?cells. row \<noteq> [] \<and> row \<noteq> [''''] \<and> length row = length (hd ?cells)
                 \<and> (\<forall>cell \<in> set row. no_crlf cell)"
    by (simp add: carriage_return_def newline_def)
  have path: "Join plain_os ''/tmp/work-stats'' (''go-issues'' @ ''.csv'')
                = ''/tmp/work-stats/go-issues.csv''"
    by (simp add: plain_os_def)
  have flush: "Flush plain_os (Join plain_os ''/tmp/work-stats'' (''go-issues'' @ ''.csv''))
                 (csv_file ?cells) = csv_file ?cells"
    by (simp add: plain_os_def)
  from flat_file_round_trip [OF run ok v l inj shape flush]
  have "\<exists>bytes. files r ''/tmp/work-stats/go-issues.csv'' = Some bytes \<and> ReadAll bytes = Inr ?cells"
    unfolding path .
  moreover have "list_all (\<lambda>row. row \<noteq> [] \<and> row \<noteq> [''''] \<and> length row = 2 \<and> list_all no_crlf row)
                   ?cells"
    using shape by (simp add: list_all_iff)
  ultimately show ?thesis
    using run ok v by auto
qed

text \<open>
  Claim C7 as the specification states it fails. The report \<open>go-cls\<close> has one column, a
  header and a row whose cell is empty. The writer makes an empty line of that row, the
  reader skips empty lines, and the file is read back as the header alone.
\<close>

theorem empty_cell_not_read_back:
  "map_option ReadAll
     (files (projr (write_data plain_os [''go-cls''] [''go-cls''] Map.empty ''/tmp/work-stats''
                      [''go-cls'' \<mapsto> [[''Issue''], ['''']]] Map.empty))
        ''/tmp/work-stats/go-cls.csv'')
     = Some (Inr [[''Issue'']])"
  by (simp add: write_data_def plain_os_def Let_def styled_rows_eq csv_record_def csv_field_def
        fieldNeedsQuotes_def first_rune_is_space_def space_runes_def ReadAll_def
        special_chars_differ quote_def Comma_def newline_def carriage_return_def accept_def)

text \<open>
  Each condition of the theorem is needed. A row without cells and a row with one empty
  cell are written as the same bytes, so that no reader can tell them apart; a carriage
  return and line feed inside a cell is read back as a line feed; and rows of unequal
  length are refused by the reader.
\<close>

lemma writer_not_injective: "csv_file [[]] = csv_file [['''']] \<and> csv_file [[]] = [newline]"
  by (simp add: csv_file_def csv_record_def csv_field_def fieldNeedsQuotes_def)

lemma crlf_cell_not_read_back:
  "ReadAll (csv_file [[[CHR ''a'', carriage_return, newline, CHR ''b'']]])
     = Inr [[[CHR ''a'', newline, CHR ''b'']]]"
  by (simp add: csv_file_def csv_record_def csv_field_def
        fieldNeedsQuotes_def first_rune_is_space_def space_runes_def ReadAll_def
        special_chars_differ quote_def Comma_def newline_def carriage_return_def accept_def)

lemma ragged_not_read_back:
  "ReadAll (csv_file [[''A'', ''B''], [''1'']]) = Inl ErrFieldCount"
  by (simp add: csv_file_def csv_record_def csv_field_def
        fieldNeedsQuotes_def first_rune_is_space_def space_runes_def ReadAll_def
        special_chars_differ quote_def Comma_def newline_def carriage_return_def accept_def)

end
